theory Spec2Isabelle
  imports Main
begin

section \<open>Strings of the dictionary engine\<close>

text \<open>
  The dictionary file is opened with \<^verbatim>\<open>encoding='latin-1'\<close>, so every character of the
  index is a code point below 256: a \<^typ>\<open>char\<close>. Words handed to the queries are
  modelled over the same alphabet. The translated transcription of \<^verbatim>\<open>arpa_to_ipa\<close>
  leaves Latin-1, so it is a list of code points (\<^typ>\<open>nat\<close>).
\<close>

type_synonym pron = "string list"

definition is_digit :: "char \<Rightarrow> bool" where
  \<comment> \<open>\<^verbatim>\<open>\d\<close> on a Latin-1 character: the decimal digits.\<close>
  "is_digit c = (c \<in> set ''0123456789'')"

definition has_stress :: "string \<Rightarrow> bool" where
  \<comment> \<open>\<^verbatim>\<open>re.search(r"[012]", p)\<close>: some character of the token is 0, 1 or 2.\<close>
  "has_stress p = (\<exists>c \<in> set p. c \<in> set ''012'')"

definition is_space :: "char \<Rightarrow> bool" where
  \<comment> \<open>\<^verbatim>\<open>str.isspace\<close> on a Latin-1 character: what \<^verbatim>\<open>strip()\<close> and \<^verbatim>\<open>split()\<close> remove.\<close>
  "is_space c =
     (let n = (of_char c :: nat)
      in (9 \<le> n \<and> n \<le> 13) \<or> (28 \<le> n \<and> n \<le> 32) \<or> n = 133 \<or> n = 160)"

definition uppercase :: string where
  \<comment> \<open>The Latin-1 characters that \<^verbatim>\<open>str.lower\<close> changes: A-Z, and U+00C0 to U+00DE
      without the multiplication sign U+00D7.\<close>
  "uppercase = ''ABCDEFGHIJKLMNOPQRSTUVWXYZ'' @
     [CHR 0xC0, CHR 0xC1, CHR 0xC2, CHR 0xC3, CHR 0xC4, CHR 0xC5, CHR 0xC6, CHR 0xC7,
      CHR 0xC8, CHR 0xC9, CHR 0xCA, CHR 0xCB, CHR 0xCC, CHR 0xCD, CHR 0xCE, CHR 0xCF,
      CHR 0xD0, CHR 0xD1, CHR 0xD2, CHR 0xD3, CHR 0xD4, CHR 0xD5, CHR 0xD6,
      CHR 0xD8, CHR 0xD9, CHR 0xDA, CHR 0xDB, CHR 0xDC, CHR 0xDD, CHR 0xDE]"

definition lowercase :: string where
  \<comment> \<open>Their images, in the same order: each is 32 code points higher.\<close>
  "lowercase = ''abcdefghijklmnopqrstuvwxyz'' @
     [CHR 0xE0, CHR 0xE1, CHR 0xE2, CHR 0xE3, CHR 0xE4, CHR 0xE5, CHR 0xE6, CHR 0xE7,
      CHR 0xE8, CHR 0xE9, CHR 0xEA, CHR 0xEB, CHR 0xEC, CHR 0xED, CHR 0xEE, CHR 0xEF,
      CHR 0xF0, CHR 0xF1, CHR 0xF2, CHR 0xF3, CHR 0xF4, CHR 0xF5, CHR 0xF6,
      CHR 0xF8, CHR 0xF9, CHR 0xFA, CHR 0xFB, CHR 0xFC, CHR 0xFD, CHR 0xFE]"

definition lower_char :: "char \<Rightarrow> char" where
  "lower_char c = (case map_of (zip uppercase lowercase) c of None \<Rightarrow> c | Some l \<Rightarrow> l)"

definition lower :: "string \<Rightarrow> string" where
  \<comment> \<open>\<^verbatim>\<open>s.lower()\<close>\<close>
  "lower s = map lower_char s"

definition strip :: "string \<Rightarrow> string" where
  \<comment> \<open>\<^verbatim>\<open>s.strip()\<close>\<close>
  "strip s = rev (dropWhile is_space (rev (dropWhile is_space s)))"

text \<open>
  \<^verbatim>\<open>s.split()\<close>: the maximal runs of characters that are not whitespace, in order.
  The first argument is the run being read.
\<close>

fun split_from :: "string \<Rightarrow> string \<Rightarrow> string list" where
  "split_from cur [] = (if cur = [] then [] else [cur])"
| "split_from cur (c # cs) =
     (if is_space c then (if cur = [] then split_from [] cs else cur # split_from [] cs)
      else split_from (cur @ [c]) cs)"

definition split_ws :: "string \<Rightarrow> string list" where
  "split_ws s = split_from [] s"

fun join :: "'a list \<Rightarrow> 'a list list \<Rightarrow> 'a list" where
  \<comment> \<open>\<^verbatim>\<open>sep.join(xs)\<close>\<close>
  "join sep [] = []"
| "join sep [x] = x"
| "join sep (x # y # ys) = x @ sep @ join sep (y # ys)"

text \<open>
  \<^verbatim>\<open>re.sub(r'\(\d+\)$', '', word)\<close>. The pattern ends in \<^verbatim>\<open>$\<close>, so it has at most one
  match: an opening parenthesis, the maximal run of digits and a closing parenthesis
  that end the string, or that end just before a final newline (\<^verbatim>\<open>$\<close> without
  \<^verbatim>\<open>re.MULTILINE\<close> also holds there). \<open>variant_suffix\<close> is the length of a match that
  ends the string.
\<close>

definition variant_suffix :: "string \<Rightarrow> nat option" where
  "variant_suffix s =
     (case rev s of
        [] \<Rightarrow> None
      | c # r \<Rightarrow>
          if c \<noteq> CHR '')'' then None
          else (let ds = takeWhile is_digit r
                in if ds = [] then None
                   else (case dropWhile is_digit r of
                           [] \<Rightarrow> None
                         | b # _ \<Rightarrow> if b = CHR ''('' then Some (length ds + 2) else None)))"

definition sub_variant :: "string \<Rightarrow> string" where
  "sub_variant word =
     (case variant_suffix word of
        Some n \<Rightarrow> take (length word - n) word
      | None \<Rightarrow>
          if word \<noteq> [] \<and> last word = CHR 0x0A then
            (case variant_suffix (butlast word) of
               Some n \<Rightarrow> take (length word - 1 - n) word @ [CHR 0x0A]
             | None \<Rightarrow> word)
          else word)"

section \<open>Phoneme analysis\<close>

text \<open>
  \<^verbatim>\<open>get_rhyming_part_from_phonemes\<close>: the loop
  \<^verbatim>\<open>for i in range(len(phonemes) - 1, -1, -1)\<close> with its \<^verbatim>\<open>break\<close>. The second
  argument of \<open>last_stress_scan\<close> is the number of indices still to visit, so the index
  visited next is one below it; the value is \<^verbatim>\<open>last_stress_idx\<close> after the loop.
\<close>

fun last_stress_scan :: "pron \<Rightarrow> nat \<Rightarrow> int" where
  "last_stress_scan phonemes 0 = - 1"
| "last_stress_scan phonemes (Suc i) =
     (if has_stress (phonemes ! i) then int i else last_stress_scan phonemes i)"

definition get_rhyming_part_from_phonemes :: "pron \<Rightarrow> pron option" where
  "get_rhyming_part_from_phonemes phonemes =
     (let last_stress_idx = last_stress_scan phonemes (length phonemes)
      in if last_stress_idx = - 1 then None
         else Some (drop (nat last_stress_idx) phonemes))"

definition count_syllables_in_pronunciation :: "pron \<Rightarrow> nat" where
  \<comment> \<open>\<^verbatim>\<open>sum(1 for p in phonemes if re.search(r"[012]", p))\<close>\<close>
  "count_syllables_in_pronunciation phonemes = sum_list (map (\<lambda>p. 1) (filter has_stress phonemes))"

text \<open>
  The comprehension \<^verbatim>\<open>[p[-1] for p in phonemes if p[-1] in '012']\<close> of
  \<^verbatim>\<open>get_stress_pattern\<close>. \<^verbatim>\<open>p[-1]\<close> raises IndexError on an empty token, at the first
  one met; \<^verbatim>\<open>in '012'\<close> on the one-character string is membership of the character.
\<close>

datatype error = IndexError

fun stress_markers :: "pron \<Rightarrow> error + string list" where
  "stress_markers [] = Inr []"
| "stress_markers (p # ps) =
     (if p = [] then Inl IndexError
      else (case stress_markers ps of
              Inl e \<Rightarrow> Inl e
            | Inr stress \<Rightarrow> Inr (if last p \<in> set ''012'' then [last p] # stress else stress)))"

section \<open>The phoneme alphabet table\<close>

text \<open>
  \<^verbatim>\<open>ARPA_TO_IPA\<close>, in the order of the source. The values are the code points of the
  source's string literals.
\<close>

definition ARPA_TO_IPA :: "(string \<times> nat list) list" where
  "ARPA_TO_IPA =
     [(''AA'', [593]), (''AE'', [230]), (''AH'', [652]), (''AO'', [596]),
      (''AW'', [97, 650]), (''AY'', [97, 618]), (''EH'', [603]), (''ER'', [605]),
      (''EY'', [101, 618]), (''IH'', [618]), (''IY'', [105]), (''OW'', [111, 650]),
      (''OY'', [596, 618]), (''UH'', [650]), (''UW'', [117]), (''AX'', [601]),
      (''AXR'', [602]), (''IX'', [616]), (''EL'', [108, 809]), (''EM'', [109, 809]),
      (''EN'', [110, 809]), (''B'', [98]), (''CH'', [116, 643]), (''D'', [100]),
      (''DH'', [240]), (''DX'', [638]), (''F'', [102]), (''G'', [609]), (''HH'', [104]),
      (''JH'', [100, 658]), (''K'', [107]), (''L'', [108]), (''M'', [109]), (''N'', [110]),
      (''NG'', [331]), (''P'', [112]), (''R'', [633]), (''S'', [115]), (''SH'', [643]),
      (''T'', [116]), (''TH'', [952]), (''V'', [118]), (''W'', [119]), (''Y'', [106]),
      (''Z'', [122]), (''ZH'', [658])]"

definition code_points :: "string \<Rightarrow> nat list" where
  \<comment> \<open>A Latin-1 string as the code points of its characters.\<close>
  "code_points s = map of_char s"

text \<open>
  \<^verbatim>\<open>arpa_to_ipa\<close>: the loop appends one symbol per phoneme to \<^verbatim>\<open>ipa_symbols\<close>;
  \<^verbatim>\<open>re.sub(r"\d", "", phoneme)\<close> deletes the digits, \<^verbatim>\<open>ARPA_TO_IPA.get(base, base.lower())\<close>
  falls back to the lowercase base symbol.
\<close>

fun ipa_loop :: "pron \<Rightarrow> nat list list \<Rightarrow> nat list list" where
  "ipa_loop [] ipa_symbols = ipa_symbols"
| "ipa_loop (phoneme # rest) ipa_symbols =
     (let base = filter (\<lambda>c. \<not> is_digit c) phoneme
      in ipa_loop rest
           (ipa_symbols @ [case map_of ARPA_TO_IPA base of
                             Some v \<Rightarrow> v
                           | None \<Rightarrow> code_points (lower base)]))"

definition arpa_to_ipa :: "pron \<Rightarrow> nat list" where
  \<comment> \<open>47 is the slash, 32 the space.\<close>
  "arpa_to_ipa phonemes = [47] @ join [32] (ipa_loop phonemes []) @ [47]"

section \<open>The index\<close>

text \<open>
  \<^verbatim>\<open>self.pronunciations\<close> is a \<^verbatim>\<open>defaultdict(list)\<close> from word to its list of
  pronunciations. A Python dictionary keeps its keys in the order of their first
  insertion, and the scans of the rhyme matcher and of the pattern search follow that
  order: the index is an association list. Every access returns its result together with
  the dictionary after it, so that an insertion by a read would show.
\<close>

type_synonym index = "(string \<times> pron list) list"

definition dd_get :: "index \<Rightarrow> string \<Rightarrow> pron list option \<times> index" where
  \<comment> \<open>\<^verbatim>\<open>d.get(k)\<close>: never calls the default factory.\<close>
  "dd_get d k = (map_of d k, d)"

definition dd_contains :: "index \<Rightarrow> string \<Rightarrow> bool \<times> index" where
  \<comment> \<open>\<^verbatim>\<open>k in d\<close>\<close>
  "dd_contains d k = (k \<in> set (map fst d), d)"

definition dd_getitem :: "index \<Rightarrow> string \<Rightarrow> pron list \<times> index" where
  \<comment> \<open>\<^verbatim>\<open>d[k]\<close>: a missing key is inserted, last, with the empty list.\<close>
  "dd_getitem d k =
     (case map_of d k of Some v \<Rightarrow> (v, d) | None \<Rightarrow> ([], d @ [(k, [])]))"

definition dd_items :: "index \<Rightarrow> (string \<times> pron list) list \<times> index" where
  \<comment> \<open>\<^verbatim>\<open>d.items()\<close>, as the sequence a \<^verbatim>\<open>for\<close> loop visits.\<close>
  "dd_items d = (d, d)"

definition dd_keys :: "index \<Rightarrow> string list \<times> index" where
  \<comment> \<open>\<^verbatim>\<open>for word in d\<close>\<close>
  "dd_keys d = (map fst d, d)"

definition list_append_at :: "index \<Rightarrow> string \<Rightarrow> pron \<Rightarrow> index" where
  \<comment> \<open>\<^verbatim>\<open>.append(phonemes)\<close> on the list stored under \<open>k\<close>: the list object is the
      dictionary's own, so the entry changes in place.\<close>
  "list_append_at d k phonemes =
     map (\<lambda>(k', v). if k' = k then (k', v @ [phonemes]) else (k', v)) d"

section \<open>The loader\<close>

text \<open>
  The body of the loop of \<^verbatim>\<open>load_dictionary\<close> on one line of the file, each
  \<^verbatim>\<open>continue\<close> leaving the index as it is.
\<close>

definition process_line :: "index \<Rightarrow> string \<Rightarrow> index" where
  "process_line d raw =
     (let line = strip (takeWhile (\<lambda>c. c \<noteq> CHR ''#'') raw)
      in if line = [] then d
         else (let parts = split_ws line
               in if length parts < 2 then d
                  else (let word = sub_variant (lower (hd parts));
                            phonemes = tl parts;
                            (v, d') = dd_getitem d word
                        in list_append_at d' word phonemes)))"

definition load_dictionary :: "string list \<Rightarrow> index" where
  \<comment> \<open>The constructor starts from the empty dictionary; the argument is the lines of the
      file, as iterating over it yields them.\<close>
  "load_dictionary lines = foldl process_line [] lines"

text \<open>
  The shape the loader gives the index: no key has an empty list of pronunciations, no
  pronunciation is empty, and no token is the empty string.
\<close>

definition well_formed :: "index \<Rightarrow> bool" where
  "well_formed d =
     (\<forall>(k, ps) \<in> set d. ps \<noteq> [] \<and> (\<forall>p \<in> set ps. p \<noteq> [] \<and> (\<forall>t \<in> set p. t \<noteq> [])))"

section \<open>The rhyme matcher\<close>

text \<open>
  \<^verbatim>\<open>find_rhymes_by_phonemes\<close>. \<open>rhyme_inner\<close> is the loop over the pronunciations of one
  other word, left by \<^verbatim>\<open>break\<close> at the first one whose rhyme key is the target;
  \<open>rhyme_outer\<close> is the loop over the items of the index, with its \<^verbatim>\<open>continue\<close> on the
  queried word and its \<^verbatim>\<open>break\<close> once \<^verbatim>\<open>len(rhymes) >= max_results\<close>, tested after
  the inner loop.
\<close>

fun rhyme_inner ::
  "pron \<Rightarrow> string \<Rightarrow> pron list \<Rightarrow> string list \<times> string set \<Rightarrow> string list \<times> string set" where
  "rhyme_inner rhyme_part other_word [] (rhymes, seen) = (rhymes, seen)"
| "rhyme_inner rhyme_part other_word (other_pron # rest) (rhymes, seen) =
     (if get_rhyming_part_from_phonemes other_pron = Some rhyme_part then
        (if other_word \<notin> seen then (rhymes @ [other_word], insert other_word seen)
         else (rhymes, seen))
      else rhyme_inner rhyme_part other_word rest (rhymes, seen))"

fun rhyme_outer ::
  "string \<Rightarrow> pron \<Rightarrow> int \<Rightarrow> (string \<times> pron list) list \<Rightarrow> string list \<times> string set \<Rightarrow> string list" where
  "rhyme_outer word rhyme_part max_results [] (rhymes, seen) = rhymes"
| "rhyme_outer word rhyme_part max_results ((other_word, other_prons) # rest) (rhymes, seen) =
     (if other_word = lower word then rhyme_outer word rhyme_part max_results rest (rhymes, seen)
      else (let (rhymes', seen') = rhyme_inner rhyme_part other_word other_prons (rhymes, seen)
            in if max_results \<le> int (length rhymes') then rhymes'
               else rhyme_outer word rhyme_part max_results rest (rhymes', seen')))"

definition find_rhymes_by_phonemes ::
  "index \<Rightarrow> string \<Rightarrow> pron \<Rightarrow> int \<Rightarrow> string list \<times> index" where
  "find_rhymes_by_phonemes d word phonemes max_results =
     (case get_rhyming_part_from_phonemes phonemes of
        None \<Rightarrow> ([], d)
      | Some rhyme_part \<Rightarrow>
          if rhyme_part = [] then ([], d)
          else (let (items, d') = dd_items d
                in (rhyme_outer word rhyme_part max_results items ([], {}), d')))"

section \<open>The query facade\<close>

definition count_syllables :: "index \<Rightarrow> string \<Rightarrow> nat option \<times> index" where
  "count_syllables d word =
     (let (pronunciations, d') = dd_get d (strip (lower word))
      in case pronunciations of
           None \<Rightarrow> (None, d')
         | Some [] \<Rightarrow> (None, d')
         | Some (phonemes # _) \<Rightarrow> (Some (count_syllables_in_pronunciation phonemes), d'))"

definition get_rhyming_part :: "index \<Rightarrow> string \<Rightarrow> string option \<times> index" where
  "get_rhyming_part d word =
     (let (pronunciations, d') = dd_get d (strip (lower word))
      in case pronunciations of
           None \<Rightarrow> (None, d')
         | Some [] \<Rightarrow> (None, d')
         | Some (phonemes # _) \<Rightarrow>
             (case get_rhyming_part_from_phonemes phonemes of
                None \<Rightarrow> (None, d')
              | Some rhyme_part \<Rightarrow>
                  if rhyme_part = [] then (None, d') else (Some (join '' '' rhyme_part), d')))"

definition find_rhymes :: "index \<Rightarrow> string \<Rightarrow> int \<Rightarrow> string list \<times> index" where
  \<comment> \<open>The word handed on to \<^verbatim>\<open>find_rhymes_by_phonemes\<close> is the argument as given.\<close>
  "find_rhymes d word max_results =
     (let (pronunciations, d') = dd_get d (strip (lower word))
      in case pronunciations of
           None \<Rightarrow> ([], d')
         | Some [] \<Rightarrow> ([], d')
         | Some (phonemes # _) \<Rightarrow> find_rhymes_by_phonemes d' word phonemes max_results)"

definition get_stress_pattern :: "index \<Rightarrow> string \<Rightarrow> (error + string option) \<times> index" where
  "get_stress_pattern d word =
     (let (pronunciations, d') = dd_get d (strip (lower word))
      in case pronunciations of
           None \<Rightarrow> (Inr None, d')
         | Some [] \<Rightarrow> (Inr None, d')
         | Some (phonemes # _) \<Rightarrow>
             (case stress_markers phonemes of
                Inl e \<Rightarrow> (Inl e, d')
              | Inr stress \<Rightarrow> (Inr (Some (join '' '' stress)), d')))"

definition get_phonemes_readable :: "index \<Rightarrow> string \<Rightarrow> string option \<times> index" where
  "get_phonemes_readable d word =
     (let (pronunciations, d') = dd_get d (strip (lower word))
      in case pronunciations of
           None \<Rightarrow> (None, d')
         | Some [] \<Rightarrow> (None, d')
         | Some (phonemes # _) \<Rightarrow> (Some (join '' '' phonemes), d'))"

definition word_exists :: "index \<Rightarrow> string \<Rightarrow> bool \<times> index" where
  \<comment> \<open>\<^verbatim>\<open>word.lower() in self.pronunciations\<close>\<close>
  "word_exists d word = dd_contains d (lower word)"

text \<open>
  \<^verbatim>\<open>lookup\<close> builds one record per stored pronunciation; the rhymes of each come from
  \<^verbatim>\<open>find_rhymes_by_phonemes\<close> with the normalised word and the default maximum of 10.
\<close>

record pron_info =
  arpa :: string
  ipa :: "nat list"
  syllables :: nat
  rhymes :: "string list"

fun lookup_loop :: "string \<Rightarrow> pron list \<Rightarrow> pron_info list \<Rightarrow> index \<Rightarrow> pron_info list \<times> index" where
  "lookup_loop word [] results d = (results, d)"
| "lookup_loop word (phonemes # rest) results d =
     (let (found, d') = find_rhymes_by_phonemes d word phonemes 10
      in lookup_loop word rest
           (results @ [\<lparr>arpa = join '' '' phonemes, ipa = arpa_to_ipa phonemes,
                        syllables = count_syllables_in_pronunciation phonemes,
                        rhymes = found\<rparr>]) d')"

definition lookup :: "index \<Rightarrow> string \<Rightarrow> pron_info list option \<times> index" where
  "lookup d raw =
     (let word = strip (lower raw);
          (pronunciations, d') = dd_get d word
      in case pronunciations of
           None \<Rightarrow> (None, d')
         | Some [] \<Rightarrow> (None, d')
         | Some (p # ps) \<Rightarrow>
             (let (results, d'') = lookup_loop word (p # ps) [] d' in (Some results, d'')))"

section \<open>Pattern search\<close>

text \<open>
  \<^verbatim>\<open>search_by_pattern\<close> hands \<^verbatim>\<open>'^' + pattern.replace('*', '.*') + '$'\<close> to
  \<^verbatim>\<open>re.compile\<close> with \<^verbatim>\<open>re.IGNORECASE\<close>. The regular expressions modelled are those
  built from literal characters and the dot, each followed by at most one of the
  repetitions \<^verbatim>\<open>*\<close>, \<^verbatim>\<open>+\<close>, \<^verbatim>\<open>?\<close>. \<open>parse_re\<close> is \<open>None\<close> on every other text: one
  that \<^verbatim>\<open>re\<close> refuses, or one that uses a construct left out here (classes, groups,
  escapes, alternation, anchors, counted and lazy repetition).
\<close>

datatype atom = Lit char | AnyChar

datatype quant = Once | Star | Plus | Opt

type_synonym regex = "(atom \<times> quant) list"

definition replace_star :: "string \<Rightarrow> string" where
  \<comment> \<open>\<^verbatim>\<open>pattern.replace('*', '.*')\<close>\<close>
  "replace_star pattern = concat (map (\<lambda>c. if c = CHR ''*'' then ''.*'' else [c]) pattern)"

definition is_special :: "char \<Rightarrow> bool" where
  \<comment> \<open>The characters with a meaning of their own in a pattern; 0x5C is the backslash.\<close>
  "is_special c = (c \<in> set (''.^$*+?{}[]|()'' @ [CHR 0x5C]))"

definition atom_of :: "char \<Rightarrow> atom option" where
  "atom_of c = (if c = CHR ''.'' then Some AnyChar else if is_special c then None else Some (Lit c))"

definition quant_of :: "char \<Rightarrow> quant option" where
  "quant_of c =
     (if c = CHR ''*'' then Some Star else if c = CHR ''+'' then Some Plus
      else if c = CHR ''?'' then Some Opt else None)"

fun parse_re :: "string \<Rightarrow> regex option" where
  "parse_re [] = Some []"
| "parse_re (c # cs) =
     (case atom_of c of
        None \<Rightarrow> None
      | Some a \<Rightarrow>
          (case cs of
             [] \<Rightarrow> Some [(a, Once)]
           | q # cs' \<Rightarrow>
               (case quant_of q of
                  None \<Rightarrow> map_option (Cons (a, Once)) (parse_re cs)
                | Some k \<Rightarrow> map_option (Cons (a, k)) (parse_re cs'))))"

fun atom_match :: "atom \<Rightarrow> char \<Rightarrow> bool" where
  \<comment> \<open>Under \<^verbatim>\<open>re.IGNORECASE\<close> a literal matches the characters with its lowercase form;
      the dot matches every character but the newline.\<close>
  "atom_match (Lit a) c = (lower_char c = lower_char a)"
| "atom_match AnyChar c = (c \<noteq> CHR 0x0A)"

text \<open>
  \<^verbatim>\<open>regex.match(word)\<close> for the anchored pattern: the items consume the word from its
  start, and the final \<^verbatim>\<open>$\<close> holds at the end of the word or just before a newline
  that ends it.
\<close>

fun re_match :: "regex \<Rightarrow> string \<Rightarrow> bool" where
  "re_match [] s = (s = [] \<or> s = [CHR 0x0A])"
| "re_match ((a, Once) # r) s =
     (case s of [] \<Rightarrow> False | c # cs \<Rightarrow> atom_match a c \<and> re_match r cs)"
| "re_match ((a, Opt) # r) s =
     (re_match r s \<or> (case s of [] \<Rightarrow> False | c # cs \<Rightarrow> atom_match a c \<and> re_match r cs))"
| "re_match ((a, Star) # r) s =
     (re_match r s \<or>
      (case s of [] \<Rightarrow> False | c # cs \<Rightarrow> atom_match a c \<and> re_match ((a, Star) # r) cs))"
| "re_match ((a, Plus) # r) s =
     (case s of [] \<Rightarrow> False | c # cs \<Rightarrow> atom_match a c \<and> re_match ((a, Star) # r) cs)"

text \<open>
  The scan of \<^verbatim>\<open>search_by_pattern\<close> over the keys: a match is appended, and the
  \<^verbatim>\<open>break\<close> on \<^verbatim>\<open>len(matches) >= max_results\<close> is tested right after the append.
\<close>

fun search_loop :: "(string \<Rightarrow> bool) \<Rightarrow> int \<Rightarrow> string list \<Rightarrow> string list \<Rightarrow> string list" where
  "search_loop accepts max_results [] matches = matches"
| "search_loop accepts max_results (word # rest) matches =
     (if accepts word then
        (if max_results \<le> int (length (matches @ [word])) then matches @ [word]
         else search_loop accepts max_results rest (matches @ [word]))
      else search_loop accepts max_results rest matches)"

text \<open>
  The result is \<open>None\<close> where the pattern is outside the regular expressions modelled.
  The dictionary is returned as it is there too: a pattern that \<^verbatim>\<open>re.compile\<close> refuses
  raises before the scan, and \<^verbatim>\<open>regex.match\<close> reads the keys only.
\<close>

definition search_by_pattern :: "index \<Rightarrow> string \<Rightarrow> int \<Rightarrow> string list option \<times> index" where
  "search_by_pattern d pattern max_results =
     (case parse_re (replace_star pattern) of
        None \<Rightarrow> (None, d)
      | Some regex \<Rightarrow>
          (let (keys, d') = dd_keys d
           in (Some (search_loop (re_match regex) max_results keys []), d')))"

section \<open>Rhyme key extraction\<close>

lemma last_stress_scan_none:
  "(last_stress_scan ph n = - 1) = (\<forall>j < n. \<not> has_stress (ph ! j))"
  by (induction n) (auto simp: less_Suc_eq)

lemma last_stress_scan_some:
  "last_stress_scan ph n \<noteq> - 1 \<Longrightarrow>
     \<exists>i < n. last_stress_scan ph n = int i \<and> has_stress (ph ! i) \<and>
       (\<forall>j. i < j \<and> j < n \<longrightarrow> \<not> has_stress (ph ! j))"
proof (induction n)
  case 0
  then show ?case by simp
next
  case (Suc n)
  show ?case
  proof (cases "has_stress (ph ! n)")
    case True
    then show ?thesis by auto
  next
    case False
    with Suc.prems have "last_stress_scan ph n \<noteq> - 1" by simp
    from Suc.IH [OF this] obtain i where i: "i < n" "last_stress_scan ph n = int i"
      "has_stress (ph ! i)" "\<forall>j. i < j \<and> j < n \<longrightarrow> \<not> has_stress (ph ! j)"
      by blast
    have "\<forall>j. i < j \<and> j < Suc n \<longrightarrow> \<not> has_stress (ph ! j)"
      using i(4) False by (auto simp: less_Suc_eq)
    with i False show ?thesis by auto
  qed
qed

lemma rhyme_key_none_iff:
  "(get_rhyming_part_from_phonemes ph = None) = (\<forall>t \<in> set ph. \<not> has_stress t)"
  by (simp add: get_rhyming_part_from_phonemes_def Let_def last_stress_scan_none
      all_set_conv_all_nth)

lemma rhyme_key_some:
  assumes a: "get_rhyming_part_from_phonemes ph = Some r"
  shows "\<exists>i < length ph. has_stress (ph ! i) \<and>
       (\<forall>j. i < j \<and> j < length ph \<longrightarrow> \<not> has_stress (ph ! j)) \<and> r = drop i ph"
proof -
  from a have ne: "last_stress_scan ph (length ph) \<noteq> - 1"
    by (auto simp: get_rhyming_part_from_phonemes_def Let_def split: if_splits)
  from last_stress_scan_some [OF ne] obtain i where i: "i < length ph"
    "last_stress_scan ph (length ph) = int i" "has_stress (ph ! i)"
    "\<forall>j. i < j \<and> j < length ph \<longrightarrow> \<not> has_stress (ph ! j)"
    by blast
  from a i(2) have "r = drop i ph"
    by (auto simp: get_rhyming_part_from_phonemes_def Let_def split: if_splits)
  with i show ?thesis by blast
qed


text \<open>
  C1. The rhyme key is absent exactly when no token of the pronunciation carries a
  stress digit; otherwise it is the suffix that starts at the rightmost token carrying
  one and runs to the end of the pronunciation.
\<close>

theorem rhyme_key_rightmost_stress:
  "(get_rhyming_part_from_phonemes ph = None \<longleftrightarrow> (\<forall>t \<in> set ph. \<not> has_stress t)) \<and>
   (\<forall>r. get_rhyming_part_from_phonemes ph = Some r \<longrightarrow>
      (\<exists>i < length ph. has_stress (ph ! i) \<and>
         (\<forall>j. i < j \<and> j < length ph \<longrightarrow> \<not> has_stress (ph ! j)) \<and> r = drop i ph))"
  using rhyme_key_none_iff rhyme_key_some by blast

theorem rhyme_key_rightmost_stress_witness:
  "get_rhyming_part_from_phonemes [''K'', ''AE1'', ''T''] = Some [''AE1'', ''T''] \<and>
   (\<exists>i < length [''K'', ''AE1'', ''T''].
      has_stress ([''K'', ''AE1'', ''T''] ! i) \<and> [''AE1'', ''T''] = drop i [''K'', ''AE1'', ''T''])"
proof -
  have e: "get_rhyming_part_from_phonemes [''K'', ''AE1'', ''T''] = Some [''AE1'', ''T'']"
    by (simp add: get_rhyming_part_from_phonemes_def has_stress_def)
  with rhyme_key_rightmost_stress [of "[''K'', ''AE1'', ''T'']"] show ?thesis by blast
qed

section \<open>The loader: one line\<close>

lemma paren_not_digit: "\<not> is_digit (CHR ''('')"
  by (simp add: is_digit_def)

lemma variant_suffix_decomp:
  assumes "ds \<noteq> []" "\<forall>c \<in> set ds. is_digit c"
  shows "variant_suffix (k @ ''('' @ ds @ '')'') = Some (length ds + 2)"
proof -
  have r: "rev (k @ ''('' @ ds @ '')'') = CHR '')'' # (rev ds @ CHR ''('' # rev k)"
    by simp
  have t: "takeWhile is_digit (rev ds @ CHR ''('' # rev k) = rev ds"
    using assms(2) by (simp add: takeWhile_tail paren_not_digit)
  have dr: "dropWhile is_digit (rev ds @ CHR ''('' # rev k) = CHR ''('' # rev k"
    using assms(2) by (simp add: dropWhile_append3 paren_not_digit)
  show ?thesis
    unfolding variant_suffix_def r using assms(1) by (simp add: t dr Let_def)
qed

lemma variant_suffix_SomeD:
  assumes "variant_suffix w = Some n"
  shows "\<exists>k ds. w = k @ ''('' @ ds @ '')'' \<and> ds \<noteq> [] \<and> (\<forall>c \<in> set ds. is_digit c) \<and>
           n = length ds + 2"
proof -
  from assms obtain r where r: "rev w = CHR '')'' # r"
    by (auto simp: variant_suffix_def split: list.splits if_splits)
  define ds where "ds = takeWhile is_digit r"
  from assms r have ne: "ds \<noteq> []"
    by (auto simp: variant_suffix_def ds_def Let_def split: list.splits if_splits)
  from assms r ne obtain rest where rest: "dropWhile is_digit r = CHR ''('' # rest"
    and n: "n = length ds + 2"
    by (auto simp: variant_suffix_def ds_def Let_def split: list.splits if_splits)
  have "r = ds @ CHR ''('' # rest"
    using takeWhile_dropWhile_id [of is_digit r] by (simp add: ds_def rest)
  with r have "rev w = CHR '')'' # ds @ CHR ''('' # rest" by simp
  then have "rev (rev w) = rev (CHR '')'' # ds @ CHR ''('' # rest)" by (rule arg_cong)
  then have w: "w = rev rest @ ''('' @ rev ds @ '')''" by simp
  have "\<forall>c \<in> set (rev ds). is_digit c"
    by (auto simp: ds_def dest: set_takeWhileD)
  with w ne n show ?thesis
    by (intro exI [of _ "rev rest"] exI [of _ "rev ds"]) simp
qed

lemma sub_variant_decomp:
  assumes "ds \<noteq> []" "\<forall>c \<in> set ds. is_digit c"
  shows "sub_variant (k @ ''('' @ ds @ '')'') = k"
  unfolding sub_variant_def variant_suffix_decomp [OF assms] by simp

lemma sub_variant_unchanged:
  assumes "\<not> (\<exists>k ds. w = k @ ''('' @ ds @ '')'' \<and> ds \<noteq> [] \<and> (\<forall>c \<in> set ds. is_digit c))"
    and "\<forall>c \<in> set w. \<not> is_space c"
  shows "sub_variant w = w"
proof -
  have none: "variant_suffix w = None"
  proof (cases "variant_suffix w")
    case (Some n)
    from variant_suffix_SomeD [OF this] assms(1) show ?thesis by blast
  qed simp
  have nl: "is_space (CHR 0x0A)" by (simp add: is_space_def)
  have "\<not> (w \<noteq> [] \<and> last w = CHR 0x0A)"
  proof
    assume a: "w \<noteq> [] \<and> last w = CHR 0x0A"
    then have "CHR 0x0A \<in> set w" using last_in_set [of w] by auto
    with assms(2) nl show False by blast
  qed
  then have "(if w \<noteq> [] \<and> last w = CHR 0x0A then x else w) = w" for x
    by (rule if_not_P)
  with none show ?thesis unfolding sub_variant_def by simp
qed

lemma split_from_tokens:
  "t \<in> set (split_from cur s) \<Longrightarrow> \<forall>c \<in> set cur. \<not> is_space c \<Longrightarrow>
     t \<noteq> [] \<and> (\<forall>c \<in> set t. \<not> is_space c)"
proof (induction s arbitrary: cur)
  case Nil
  then show ?case by (cases "cur = []") auto
next
  case (Cons c cs)
  show ?case
  proof (cases "is_space c")
    case True
    show ?thesis
    proof (cases "cur = []")
      case True
      with \<open>is_space c\<close> Cons.prems(1) have "t \<in> set (split_from [] cs)" by simp
      then show ?thesis by (rule Cons.IH) simp
    next
      case False
      with \<open>is_space c\<close> Cons.prems(1) have "t = cur \<or> t \<in> set (split_from [] cs)" by simp
      then show ?thesis
      proof
        assume "t = cur"
        with False Cons.prems(2) show ?thesis by simp
      next
        assume "t \<in> set (split_from [] cs)"
        then show ?thesis by (rule Cons.IH) simp
      qed
    qed
  next
    case False
    with Cons.prems(1) have "t \<in> set (split_from (cur @ [c]) cs)" by simp
    then show ?thesis
    proof (rule Cons.IH)
      show "\<forall>x \<in> set (cur @ [c]). \<not> is_space x" using Cons.prems(2) False by simp
    qed
  qed
qed

lemma split_ws_tokens:
  "t \<in> set (split_ws s) \<Longrightarrow> t \<noteq> [] \<and> (\<forall>c \<in> set t. \<not> is_space c)"
  unfolding split_ws_def using split_from_tokens [of t "[]" s] by simp

lemma lower_char_space: "is_space (lower_char c) \<Longrightarrow> is_space c"
proof (cases "map_of (zip uppercase lowercase) c")
  case None
  assume "is_space (lower_char c)"
  with None show ?thesis by (simp add: lower_char_def)
next
  case (Some l)
  then have "(c, l) \<in> set (zip uppercase lowercase)" by (rule map_of_SomeD)
  then have "l \<in> set lowercase" by (rule set_zip_rightD)
  then have "\<not> is_space l" unfolding lowercase_def by (auto simp: is_space_def)
  moreover assume "is_space (lower_char c)"
  ultimately show ?thesis using Some by (simp add: lower_char_def)
qed

lemma lower_no_space: "\<forall>c \<in> set w. \<not> is_space c \<Longrightarrow> \<forall>c \<in> set (lower w). \<not> is_space c"
  by (auto simp: lower_def dest: lower_char_space)

lemma last_dropWhile: "dropWhile P xs \<noteq> [] \<Longrightarrow> last (dropWhile P xs) = last xs"
  by (induction xs) (auto split: if_splits)

lemma strip_trimmed:
  assumes "strip s \<noteq> []"
  shows "\<not> is_space (hd (strip s)) \<and> \<not> is_space (last (strip s))"
proof -
  define a where "a = dropWhile is_space s"
  define b where "b = dropWhile is_space (rev a)"
  have s: "strip s = rev b" by (simp add: strip_def a_def b_def)
  with assms have b: "b \<noteq> []" by simp
  then have ra: "rev a \<noteq> []" by (auto simp: b_def)
  then have a: "a \<noteq> []" by simp
  have "last (strip s) = hd b" using b by (simp add: s last_rev)
  moreover have "\<not> is_space (hd b)" using b unfolding b_def by (rule hd_dropWhile)
  moreover have "hd (strip s) = last b" using b by (simp add: s hd_rev)
  moreover have "last b = last (rev a)" using b unfolding b_def by (rule last_dropWhile)
  moreover have "last (rev a) = hd a" using a by (simp add: last_rev)
  moreover have "\<not> is_space (hd a)" using a unfolding a_def by (rule hd_dropWhile)
  ultimately show ?thesis by simp
qed

lemma set_strip: "set (strip s) \<subseteq> set s"
  by (auto simp: strip_def dest!: set_dropWhileD)

lemma map_of_list_append_at:
  "map_of (list_append_at d k p) x =
     (if x = k then map_option (\<lambda>v. v @ [p]) (map_of d k) else map_of d x)"
  by (induction d) (auto simp: list_append_at_def)

lemma keys_list_append_at: "map fst (list_append_at d k p) = map fst d"
  by (induction d) (auto simp: list_append_at_def)

lemma map_of_store:
  "map_of (list_append_at (snd (dd_getitem d k)) k p) =
     (map_of d)(k \<mapsto> (case map_of d k of None \<Rightarrow> [] | Some v \<Rightarrow> v) @ [p])"
  by (rule ext) (auto simp: map_of_list_append_at dd_getitem_def map_add_def split: option.splits)

lemma keys_store:
  "map fst (list_append_at (snd (dd_getitem d k)) k p) =
     (if k \<in> set (map fst d) then map fst d else map fst d @ [k])"
proof (cases "map_of d k")
  case None
  then have "k \<notin> fst ` set d" by (simp add: map_of_eq_None_iff)
  with None show ?thesis by (simp add: keys_list_append_at dd_getitem_def)
next
  case (Some v)
  then have "k \<in> fst ` set d" using map_of_eq_None_iff [of d k] by auto
  with Some show ?thesis by (simp add: keys_list_append_at dd_getitem_def)
qed

text \<open>
  C6. On every line, the text before the first \<open>#\<close> is kept and trimmed; a line that
  is then empty, or that splits into fewer than two tokens, leaves the index as it was.
  Otherwise the key is the lowercased first token without one trailing marker of the
  form "(digits)", and the other tokens are appended, as they stand, as one
  pronunciation to the list of that key, which is created last in the index when it is
  new. One marker is removed, not every one: a first token that ends in two markers
  is stored under a key that still ends in the first of them.
\<close>

theorem process_line_stores_one_pronunciation:
  fixes d :: index and raw :: string
  defines "line \<equiv> strip (takeWhile (\<lambda>c. c \<noteq> CHR ''#'') raw)"
  defines "parts \<equiv> split_ws line"
  defines "w \<equiv> lower (hd parts)"
  defines "key \<equiv> sub_variant w"
  shows "CHR ''#'' \<notin> set line \<and>
    (line \<noteq> [] \<longrightarrow> \<not> is_space (hd line) \<and> \<not> is_space (last line)) \<and>
    (line = [] \<or> length parts < 2 \<longrightarrow> process_line d raw = d) \<and>
    (line \<noteq> [] \<and> 2 \<le> length parts \<longrightarrow>
       map_of (process_line d raw) =
         (map_of d)(key \<mapsto> (case map_of d key of None \<Rightarrow> [] | Some v \<Rightarrow> v) @ [tl parts]) \<and>
       map fst (process_line d raw) =
         (if key \<in> set (map fst d) then map fst d else map fst d @ [key]) \<and>
       (\<forall>k ds. w = k @ ''('' @ ds @ '')'' \<and> ds \<noteq> [] \<and> (\<forall>c \<in> set ds. is_digit c) \<longrightarrow> key = k) \<and>
       ((\<nexists>k ds. w = k @ ''('' @ ds @ '')'' \<and> ds \<noteq> [] \<and> (\<forall>c \<in> set ds. is_digit c)) \<longrightarrow> key = w))"
proof (intro conjI impI)
  show "CHR ''#'' \<notin> set line"
  proof
    assume "CHR ''#'' \<in> set line"
    then have "CHR ''#'' \<in> set (takeWhile (\<lambda>c. c \<noteq> CHR ''#'') raw)"
      unfolding line_def using set_strip by blast
    then show False by (auto dest: set_takeWhileD)
  qed
next
  assume "line \<noteq> []"
  then show "\<not> is_space (hd line)" "\<not> is_space (last line)"
    unfolding line_def using strip_trimmed by blast+
next
  assume "line = [] \<or> length parts < 2"
  then show "process_line d raw = d"
    by (auto simp: process_line_def Let_def line_def parts_def)
next
  assume a: "line \<noteq> [] \<and> 2 \<le> length parts"
  then have p: "process_line d raw = list_append_at (snd (dd_getitem d key)) key (tl parts)"
    by (simp add: process_line_def Let_def line_def parts_def key_def w_def split_beta)
  show "map_of (process_line d raw) =
         (map_of d)(key \<mapsto> (case map_of d key of None \<Rightarrow> [] | Some v \<Rightarrow> v) @ [tl parts])"
    unfolding p by (rule map_of_store)
  show "map fst (process_line d raw) =
         (if key \<in> set (map fst d) then map fst d else map fst d @ [key])"
    unfolding p by (rule keys_store)
  show "\<forall>k ds. w = k @ ''('' @ ds @ '')'' \<and> ds \<noteq> [] \<and> (\<forall>c \<in> set ds. is_digit c) \<longrightarrow> key = k"
    unfolding key_def using sub_variant_decomp by blast
next
  assume a: "line \<noteq> [] \<and> 2 \<le> length parts"
    and n: "\<nexists>k ds. w = k @ ''('' @ ds @ '')'' \<and> ds \<noteq> [] \<and> (\<forall>c \<in> set ds. is_digit c)"
  from a have "hd parts \<in> set (split_ws line)" by (cases parts) (auto simp: parts_def)
  then have "\<forall>c \<in> set (hd parts). \<not> is_space c" using split_ws_tokens by blast
  then have "\<forall>c \<in> set w. \<not> is_space c" unfolding w_def by (rule lower_no_space)
  with n show "key = w" unfolding key_def by (rule sub_variant_unchanged)
qed

theorem process_line_stores_one_pronunciation_witness:
  "2 \<le> length (split_ws (strip (takeWhile (\<lambda>c. c \<noteq> CHR ''#'') ''Cat(2) K AE1 T # alt''))) \<and>
   map fst (process_line [] ''Cat(2) K AE1 T # alt'') = [''cat''] \<and>
   map_of (process_line [] ''Cat(2) K AE1 T # alt'') ''cat'' = Some [[''K'', ''AE1'', ''T'']] \<and>
   sub_variant (lower ''Cat(2)'') = ''cat''"
proof -
  have l: "strip ''Cat(2) K AE1 T '' = ''Cat(2) K AE1 T''"
    by (simp add: strip_def is_space_def)
  have s: "split_ws ''Cat(2) K AE1 T'' = [''Cat(2)'', ''K'', ''AE1'', ''T'']"
    by (simp add: split_ws_def is_space_def)
  have k: "sub_variant (lower ''Cat(2)'') = ''cat''"
    by (simp add: lower_def lower_char_def uppercase_def lowercase_def sub_variant_def
        variant_suffix_def is_digit_def)
  show ?thesis
    using process_line_stores_one_pronunciation [of "''Cat(2) K AE1 T # alt''" "[]"]
    by (simp add: l s k)
qed

text \<open>
  The line \<^verbatim>\<open>a(1)(2) B\<close> is stored under the key \<^verbatim>\<open>a(1)\<close>, which ends in a marker.
\<close>

theorem variant_marker_kept_counterexample:
  "map fst (load_dictionary [''a(1)(2) B'']) = [''a(1)''] \<and> variant_suffix ''a(1)'' = Some 3"
  by (simp add: load_dictionary_def process_line_def strip_def is_space_def split_ws_def
      lower_def lower_char_def uppercase_def lowercase_def sub_variant_def variant_suffix_def
      is_digit_def dd_getitem_def list_append_at_def Let_def)

section \<open>The loaded index\<close>

lemma well_formedD:
  "well_formed d \<Longrightarrow> (k, ps) \<in> set d \<Longrightarrow>
     ps \<noteq> [] \<and> (\<forall>p \<in> set ps. p \<noteq> [] \<and> (\<forall>t \<in> set p. t \<noteq> []))"
  unfolding well_formed_def by blast

lemma set_list_append_at:
  "(k', v') \<in> set (list_append_at d k p) \<Longrightarrow>
     (k' \<noteq> k \<and> (k', v') \<in> set d) \<or> (k' = k \<and> (\<exists>v. (k, v) \<in> set d \<and> v' = v @ [p]))"
  by (induction d) (auto simp: list_append_at_def split: if_splits)

lemma set_dd_getitem:
  "(k', v) \<in> set (snd (dd_getitem d k)) \<Longrightarrow> (k', v) \<in> set d \<or> (k' = k \<and> v = [])"
  by (auto simp: dd_getitem_def split: option.splits)

lemma process_line_cases:
  "process_line d raw = d \<or>
   (\<exists>parts. parts = split_ws (strip (takeWhile (\<lambda>c. c \<noteq> CHR ''#'') raw)) \<and> 2 \<le> length parts \<and>
      process_line d raw =
        list_append_at (snd (dd_getitem d (sub_variant (lower (hd parts)))))
          (sub_variant (lower (hd parts))) (tl parts))"
  by (simp add: process_line_def Let_def split_beta)

lemma process_line_well_formed:
  assumes wf: "well_formed d"
  shows "well_formed (process_line d raw)"
proof -
  from process_line_cases [of d raw] show ?thesis
  proof
    assume "process_line d raw = d"
    with wf show ?thesis by simp
  next
    assume "\<exists>parts. parts = split_ws (strip (takeWhile (\<lambda>c. c \<noteq> CHR ''#'') raw)) \<and>
      2 \<le> length parts \<and>
      process_line d raw =
        list_append_at (snd (dd_getitem d (sub_variant (lower (hd parts)))))
          (sub_variant (lower (hd parts))) (tl parts)"
    then obtain parts where parts: "parts = split_ws (strip (takeWhile (\<lambda>c. c \<noteq> CHR ''#'') raw))"
      and len: "2 \<le> length parts"
      and pl: "process_line d raw =
        list_append_at (snd (dd_getitem d (sub_variant (lower (hd parts)))))
          (sub_variant (lower (hd parts))) (tl parts)"
      by blast
    define key where "key = sub_variant (lower (hd parts))"
    have tl_ne: "tl parts \<noteq> []" using len by (cases parts) auto
    have tl_tok: "\<forall>t \<in> set (tl parts). t \<noteq> []"
    proof
      fix t assume "t \<in> set (tl parts)"
      then have "t \<in> set parts" by (cases parts) auto
      then show "t \<noteq> []" unfolding parts using split_ws_tokens by blast
    qed
    show ?thesis
      unfolding well_formed_def
    proof (intro ballI, clarify)
      fix k' v'
      assume "(k', v') \<in> set (process_line d raw)"
      then have "(k', v') \<in> set (list_append_at (snd (dd_getitem d key)) key (tl parts))"
        by (simp add: pl key_def)
      from set_list_append_at [OF this]
      show "v' \<noteq> [] \<and> (\<forall>p \<in> set v'. p \<noteq> [] \<and> (\<forall>t \<in> set p. t \<noteq> []))"
      proof
        assume "k' \<noteq> key \<and> (k', v') \<in> set (snd (dd_getitem d key))"
        then have "(k', v') \<in> set d" using set_dd_getitem by blast
        with wf show ?thesis by (rule well_formedD)
      next
        assume "k' = key \<and> (\<exists>v. (key, v) \<in> set (snd (dd_getitem d key)) \<and> v' = v @ [tl parts])"
        then obtain v where v: "(key, v) \<in> set (snd (dd_getitem d key))" "v' = v @ [tl parts]"
          by blast
        from v(1) have "(key, v) \<in> set d \<or> v = []" using set_dd_getitem by blast
        then have "\<forall>p \<in> set v. p \<noteq> [] \<and> (\<forall>t \<in> set p. t \<noteq> [])"
          using well_formedD [OF wf] by fastforce
        with v(2) tl_ne tl_tok show ?thesis by auto
      qed
    qed
  qed
qed

lemma foldl_process_line_well_formed:
  "well_formed d \<Longrightarrow> well_formed (foldl process_line d lines)"
  by (induction lines arbitrary: d) (simp_all add: process_line_well_formed)

lemma load_dictionary_well_formed: "well_formed (load_dictionary lines)"
  unfolding load_dictionary_def
  by (rule foldl_process_line_well_formed) (simp add: well_formed_def)

lemma process_line_distinct:
  "distinct (map fst d) \<Longrightarrow> distinct (map fst (process_line d raw))"
  using process_line_cases [of d raw] by (auto simp: keys_store)

lemma foldl_process_line_distinct:
  "distinct (map fst d) \<Longrightarrow> distinct (map fst (foldl process_line d lines))"
  by (induction lines arbitrary: d) (simp_all add: process_line_distinct)

lemma load_dictionary_distinct: "distinct (map fst (load_dictionary lines))"
  unfolding load_dictionary_def by (rule foldl_process_line_distinct) simp

section \<open>Queries that report on the first pronunciation\<close>

lemma well_formed_lookup:
  assumes "well_formed d" "map_of d k = Some ps"
  shows "ps \<noteq> [] \<and> (\<forall>p \<in> set ps. p \<noteq> [] \<and> (\<forall>t \<in> set p. t \<noteq> []))"
proof -
  from assms(2) have "(k, ps) \<in> set d" by (rule map_of_SomeD)
  with assms(1) show ?thesis by (rule well_formedD)
qed


lemma stress_markers_tokens:
  "\<forall>t \<in> set p. t \<noteq> [] \<Longrightarrow>
     stress_markers p = Inr (map (\<lambda>t. [last t]) (filter (\<lambda>t. last t \<in> set ''012'') p))"
  by (induction p) simp_all

lemma last_digit_has_stress: "t \<noteq> [] \<Longrightarrow> last t \<in> set ''012'' \<Longrightarrow> has_stress t"
  unfolding has_stress_def using last_in_set [of t] by blast


lemmas load_eval = load_dictionary_def process_line_def strip_def is_space_def split_ws_def
  lower_def lower_char_def uppercase_def lowercase_def sub_variant_def variant_suffix_def
  is_digit_def dd_getitem_def list_append_at_def Let_def





text \<open>
  C8. On a loaded index, \<^verbatim>\<open>get_stress_pattern\<close> of a key is the last character of every
  token of the first pronunciation whose last character is 0, 1 or 2, in token order,
  joined by single spaces. The test is on the last character only: when every token that
  contains a stress digit also ends in one, as in the dictionary format, each stressed
  token gives exactly one digit.
\<close>

theorem stress_pattern_last_characters:
  fixes lines :: "string list" and word :: string
  defines "d \<equiv> load_dictionary lines"
  defines "key \<equiv> strip (lower word)"
  shows "(map_of d key = None \<longrightarrow> fst (get_stress_pattern d word) = Inr None) \<and>
    (\<forall>p ps. map_of d key = Some (p # ps) \<longrightarrow>
       fst (get_stress_pattern d word) =
         Inr (Some (join '' '' (map (\<lambda>t. [last t]) (filter (\<lambda>t. last t \<in> set ''012'') p)))) \<and>
       ((\<forall>t \<in> set p. has_stress t \<longrightarrow> last t \<in> set ''012'') \<longrightarrow>
          fst (get_stress_pattern d word) =
            Inr (Some (join '' '' (map (\<lambda>t. [last t]) (filter has_stress p))))))"
proof (intro conjI allI impI)
  assume "map_of d key = None"
  then show "fst (get_stress_pattern d word) = Inr None"
    by (simp add: get_stress_pattern_def dd_get_def key_def)
next
  fix p ps
  assume m: "map_of d key = Some (p # ps)"
  have wf: "well_formed d" unfolding d_def by (rule load_dictionary_well_formed)
  from well_formed_lookup [OF wf m] have tok: "\<forall>t \<in> set p. t \<noteq> []" by simp
  show pat: "fst (get_stress_pattern d word) =
         Inr (Some (join '' '' (map (\<lambda>t. [last t]) (filter (\<lambda>t. last t \<in> set ''012'') p))))"
    using m by (simp add: get_stress_pattern_def dd_get_def key_def stress_markers_tokens [OF tok])
  assume all: "\<forall>t \<in> set p. has_stress t \<longrightarrow> last t \<in> set ''012''"
  have "filter (\<lambda>t. last t \<in> set ''012'') p = filter has_stress p"
  proof (rule filter_cong [OF refl])
    fix t assume t: "t \<in> set p"
    with tok have "t \<noteq> []" by blast
    with all t last_digit_has_stress [of t]
    show "(last t \<in> set ''012'') = has_stress t" by blast
  qed
  with pat show "fst (get_stress_pattern d word) =
            Inr (Some (join '' '' (map (\<lambda>t. [last t]) (filter has_stress p))))"
    by simp
qed

lemma load_computer:
  "load_dictionary [''computer K AH0 M P Y UW1 T ER0''] =
     [(''computer'', [[''K'', ''AH0'', ''M'', ''P'', ''Y'', ''UW1'', ''T'', ''ER0'']])]"
  by (simp add: load_eval)

theorem stress_pattern_last_characters_witness:
  "map_of (load_dictionary [''computer K AH0 M P Y UW1 T ER0'']) (strip (lower ''Computer'')) =
     Some [[''K'', ''AH0'', ''M'', ''P'', ''Y'', ''UW1'', ''T'', ''ER0'']] \<and>
   fst (get_stress_pattern (load_dictionary [''computer K AH0 M P Y UW1 T ER0'']) ''Computer'') =
     Inr (Some ''0 1 0'')"
proof -
  have k: "strip (lower ''Computer'') = ''computer''" by (simp add: load_eval)
  have m: "map_of (load_dictionary [''computer K AH0 M P Y UW1 T ER0''])
      (strip (lower ''Computer'')) =
      Some [[''K'', ''AH0'', ''M'', ''P'', ''Y'', ''UW1'', ''T'', ''ER0'']]"
    by (simp add: load_computer k)
  from stress_pattern_last_characters
    [where lines = "[''computer K AH0 M P Y UW1 T ER0'']" and word = "''Computer''"] m
  have "fst (get_stress_pattern (load_dictionary [''computer K AH0 M P Y UW1 T ER0''])
      ''Computer'') =
      Inr (Some (join '' '' (map (\<lambda>t. [last t]) (filter (\<lambda>t. last t \<in> set ''012'')
        [''K'', ''AH0'', ''M'', ''P'', ''Y'', ''UW1'', ''T'', ''ER0'']))))"
    by blast
  with m show ?thesis by simp
qed

text \<open>
  Both tokens of \<^verbatim>\<open>x 1A E1\<close> contain a stress digit; only the second ends in one, and the
  pattern has one digit.
\<close>

theorem stress_pattern_inner_digit_counterexample:
  "fst (get_stress_pattern (load_dictionary [''x 1A E1'']) ''x'') = Inr (Some ''1'') \<and>
   has_stress ''1A'' \<and> has_stress ''E1''"
  by (simp add: load_eval get_stress_pattern_def dd_get_def has_stress_def)

section \<open>Alphabet translation\<close>

lemma ipa_loop_map:
  "ipa_loop phonemes acc =
     acc @ map (\<lambda>t. case map_of ARPA_TO_IPA (filter (\<lambda>c. \<not> is_digit c) t) of
                       Some v \<Rightarrow> v
                     | None \<Rightarrow> code_points (lower (filter (\<lambda>c. \<not> is_digit c) t))) phonemes"
  by (induction phonemes arbitrary: acc) (simp_all add: Let_def)

text \<open>
  C9. The translation takes each token in order, deletes its digits, replaces the rest
  by its entry of the table, or by its lowercase form when the table has none, joins the
  results with single spaces and puts a slash on each side. It is a total function: an
  unknown symbol is translated by the fallback.
\<close>

theorem arpa_to_ipa_translation:
  "arpa_to_ipa phonemes =
     [47] @ join [32]
       (map (\<lambda>t. case map_of ARPA_TO_IPA (filter (\<lambda>c. \<not> is_digit c) t) of
                    Some v \<Rightarrow> v
                  | None \<Rightarrow> code_points (lower (filter (\<lambda>c. \<not> is_digit c) t))) phonemes) @ [47]"
  by (simp add: arpa_to_ipa_def ipa_loop_map)

theorem arpa_to_ipa_translation_witness:
  "arpa_to_ipa [''K'', ''AE1'', ''T'', ''Qq9''] = [47, 107, 32, 230, 32, 116, 32, 113, 113, 47]"
proof -
  have "map_of ARPA_TO_IPA ''K'' = Some [107]" "map_of ARPA_TO_IPA ''AE'' = Some [230]"
    "map_of ARPA_TO_IPA ''T'' = Some [116]" "map_of ARPA_TO_IPA ''Qq'' = None"
    by (simp_all add: ARPA_TO_IPA_def)
  moreover have "code_points (lower ''Qq'') = [113, 113]"
    by (simp add: code_points_def load_eval)
  ultimately show ?thesis
    using arpa_to_ipa_translation [of "[''K'', ''AE1'', ''T'', ''Qq9'']"]
    by (simp add: is_digit_def)
qed

section \<open>Queries read the index only\<close>

lemma find_rhymes_by_phonemes_index:
  "snd (find_rhymes_by_phonemes d word phonemes max_results) = d"
  by (simp add: find_rhymes_by_phonemes_def dd_items_def split: option.splits)

lemma lookup_loop_index: "snd (lookup_loop word prons results d) = d"
  by (induction prons arbitrary: results)
    (simp_all add: split_beta find_rhymes_by_phonemes_index)

lemma lookup_index: "snd (lookup d word) = d"
proof (cases "map_of d (strip (lower word))")
  case None
  then show ?thesis by (simp add: lookup_def dd_get_def)
next
  case (Some ps)
  then show ?thesis
    by (cases ps)
      (simp_all add: lookup_def dd_get_def split_beta lookup_loop_index del: lookup_loop.simps)
qed

lemma find_rhymes_index: "snd (find_rhymes d word max_results) = d"
  by (simp add: find_rhymes_def dd_get_def find_rhymes_by_phonemes_index
      split: option.splits list.splits)

lemma get_stress_pattern_index: "snd (get_stress_pattern d word) = d"
  by (simp add: get_stress_pattern_def dd_get_def split: option.splits list.splits sum.splits)

lemma get_rhyming_part_index: "snd (get_rhyming_part d word) = d"
  by (simp add: get_rhyming_part_def dd_get_def split: option.splits list.splits)

lemma search_by_pattern_index: "snd (search_by_pattern d pattern max_results) = d"
  by (simp add: search_by_pattern_def dd_keys_def split: option.splits)

lemma dd_getitem_inserts: "word \<notin> set (map fst d) \<Longrightarrow> snd (dd_getitem d word) = d @ [(word, [])]"
  by (simp add: dd_getitem_def map_of_eq_None_iff [THEN iffD2])

lemma get_stress_pattern_defined:
  "\<exists>r. fst (get_stress_pattern (load_dictionary lines) word) = Inr r"
proof (cases "map_of (load_dictionary lines) (strip (lower word))")
  case None
  then show ?thesis by (simp add: get_stress_pattern_def dd_get_def)
next
  case (Some ps)
  from well_formed_lookup [OF load_dictionary_well_formed Some]
  obtain p ps' where ps: "ps = p # ps'" and tok: "\<forall>t \<in> set p. t \<noteq> []"
    by (cases ps) auto
  show ?thesis
    using Some ps by (simp add: get_stress_pattern_def dd_get_def stress_markers_tokens [OF tok])
qed

text \<open>
  C10. Every query returns the index it was given, for every argument: the queries
  read through \<^verbatim>\<open>get\<close>, \<^verbatim>\<open>in\<close> and iteration, never through indexing, which on a
  missing key would add an entry with the empty list. In every index that the loader
  builds, each list of pronunciations is non-empty, each pronunciation is non-empty and
  each token is a non-empty string, so \<^verbatim>\<open>get_stress_pattern\<close> never fails on the last
  character of a token.
\<close>

theorem queries_leave_index_unchanged:
  "snd (lookup d word) = d \<and> snd (word_exists d word) = d \<and>
   snd (count_syllables d word) = d \<and> snd (get_stress_pattern d word) = d \<and>
   snd (get_rhyming_part d word) = d \<and> snd (get_phonemes_readable d word) = d \<and>
   snd (find_rhymes d word max_results) = d \<and>
   snd (search_by_pattern d pattern max_results) = d \<and>
   (word \<notin> set (map fst d) \<longrightarrow> snd (dd_getitem d word) = d @ [(word, [])]) \<and>
   (\<forall>(k, ps) \<in> set (load_dictionary lines).
      ps \<noteq> [] \<and> (\<forall>p \<in> set ps. p \<noteq> [] \<and> (\<forall>t \<in> set p. t \<noteq> []))) \<and>
   (\<exists>r. fst (get_stress_pattern (load_dictionary lines) word) = Inr r)"
proof (intro conjI)
  show "snd (lookup d word) = d" by (rule lookup_index)
  show "snd (word_exists d word) = d" by (simp add: word_exists_def dd_contains_def)
  show "snd (count_syllables d word) = d"
    by (simp add: count_syllables_def dd_get_def split: option.splits list.splits)
  show "snd (get_stress_pattern d word) = d" by (rule get_stress_pattern_index)
  show "snd (get_rhyming_part d word) = d" by (rule get_rhyming_part_index)
  show "snd (get_phonemes_readable d word) = d"
    by (simp add: get_phonemes_readable_def dd_get_def split: option.splits list.splits)
  show "snd (find_rhymes d word max_results) = d" by (rule find_rhymes_index)
  show "snd (search_by_pattern d pattern max_results) = d" by (rule search_by_pattern_index)
  show "word \<notin> set (map fst d) \<longrightarrow> snd (dd_getitem d word) = d @ [(word, [])]"
    using dd_getitem_inserts by blast
  show "\<forall>(k, ps) \<in> set (load_dictionary lines).
      ps \<noteq> [] \<and> (\<forall>p \<in> set ps. p \<noteq> [] \<and> (\<forall>t \<in> set p. t \<noteq> []))"
    using load_dictionary_well_formed [of lines] unfolding well_formed_def .
  show "\<exists>r. fst (get_stress_pattern (load_dictionary lines) word) = Inr r"
    by (rule get_stress_pattern_defined)
qed

lemma load_cat_bat:
  "load_dictionary [''cat K AE1 T'', ''bat B AE1 T''] =
     [(''cat'', [[''K'', ''AE1'', ''T'']]), (''bat'', [[''B'', ''AE1'', ''T'']])]"
  by (simp add: load_eval)

theorem queries_leave_index_unchanged_witness:
  "''fish'' \<notin> set (map fst (load_dictionary [''cat K AE1 T'', ''bat B AE1 T''])) \<and>
   snd (lookup (load_dictionary [''cat K AE1 T'', ''bat B AE1 T'']) ''fish'') =
     load_dictionary [''cat K AE1 T'', ''bat B AE1 T''] \<and>
   snd (dd_getitem (load_dictionary [''cat K AE1 T'', ''bat B AE1 T'']) ''fish'') =
     load_dictionary [''cat K AE1 T'', ''bat B AE1 T''] @ [(''fish'', [])]"
proof -
  have a: "''fish'' \<notin> set (map fst (load_dictionary [''cat K AE1 T'', ''bat B AE1 T'']))"
    by (simp add: load_cat_bat)
  with queries_leave_index_unchanged
    [where d = "load_dictionary [''cat K AE1 T'', ''bat B AE1 T'']" and word = "''fish''"]
  show ?thesis by blast
qed

section \<open>The queries on a two-word dictionary\<close>

lemmas query_eval = dd_get_def dd_contains_def dd_items_def dd_keys_def
  get_rhyming_part_from_phonemes_def has_stress_def find_rhymes_by_phonemes_def

text \<open>
  C2. \<^verbatim>\<open>find_rhymes\<close> looks the word up by its lowercased and trimmed form, and hands the
  word as given to the rhyme matcher, which compares keys with its lowercased form only.
  Asked for the rhymes of \<^verbatim>\<open>" cat"\<close>, it returns \<^verbatim>\<open>cat\<close> itself among them.
\<close>

theorem find_rhymes_keeps_padded_word:
  "strip (lower '' cat'') = ''cat'' \<and>
   fst (find_rhymes (load_dictionary [''cat K AE1 T'', ''bat B AE1 T'']) '' cat'' 10) =
     [''cat'', ''bat''] \<and>
   fst (find_rhymes (load_dictionary [''cat K AE1 T'', ''bat B AE1 T'']) ''cat'' 10) = [''bat'']"
  by (simp add: load_cat_bat find_rhymes_def query_eval strip_def lower_def lower_char_def
      uppercase_def lowercase_def is_space_def)

text \<open>
  C3. \<^verbatim>\<open>word_exists\<close> lowercases its argument and does not trim it: \<^verbatim>\<open>" cat"\<close> is
  reported missing from an index in which its lowercased and trimmed form is a key.
\<close>

theorem word_exists_not_trimmed:
  "strip (lower '' cat'') = ''cat'' \<and>
   fst (word_exists (load_dictionary [''cat K AE1 T'', ''bat B AE1 T'']) '' cat'') = False \<and>
   fst (word_exists (load_dictionary [''cat K AE1 T'', ''bat B AE1 T'']) ''cat'') = True"
  by (simp add: load_cat_bat word_exists_def query_eval strip_def lower_def lower_char_def
      uppercase_def lowercase_def is_space_def)

text \<open>
  C4. The pattern is handed to the regular expression compiler with only \<^verbatim>\<open>*\<close>
  rewritten, so a dot in it matches any character: \<^verbatim>\<open>c.t\<close> finds \<^verbatim>\<open>cat\<close>.
\<close>

theorem search_dot_matches_any_character:
  "fst (search_by_pattern (load_dictionary [''cat K AE1 T'', ''bat B AE1 T'']) ''c.t'' 20) =
     Some [''cat'']"
  by (simp add: load_cat_bat search_by_pattern_def query_eval replace_star_def atom_of_def
      quant_of_def is_special_def lower_char_def uppercase_def lowercase_def)

text \<open>
  C5. Both scans test the maximum after a word has been appended, so with a maximum of
  zero each returns the first word it finds.
\<close>

theorem cap_exceeded_at_zero:
  "fst (find_rhymes (load_dictionary [''cat K AE1 T'', ''bat B AE1 T'']) ''cat'' 0) = [''bat''] \<and>
   fst (search_by_pattern (load_dictionary [''cat K AE1 T'', ''bat B AE1 T'']) ''*'' 0) =
     Some [''cat'']"
  by (simp add: load_cat_bat find_rhymes_def search_by_pattern_def query_eval replace_star_def
      atom_of_def quant_of_def is_special_def strip_def lower_def lower_char_def
      uppercase_def lowercase_def is_space_def)

text \<open>
  From a maximum of one on, neither scan returns more words than the maximum.
\<close>

lemma rhyme_inner_length:
  "length (fst (rhyme_inner rp ow prons (rs, seen))) \<le> Suc (length rs)"
  by (induction prons) simp_all

lemma rhyme_outer_cap:
  "int (length rs) < m \<Longrightarrow> int (length (rhyme_outer w rp m items (rs, seen))) \<le> m"
proof (induction items arbitrary: rs seen)
  case Nil
  then show ?case by simp
next
  case (Cons item items)
  obtain ow ops where item: "item = (ow, ops)" by (cases item)
  obtain rs' seen' where inner: "rhyme_inner rp ow ops (rs, seen) = (rs', seen')"
    by (cases "rhyme_inner rp ow ops (rs, seen)")
  have len: "length rs' \<le> Suc (length rs)"
    using rhyme_inner_length [of rp ow ops rs seen] by (simp add: inner)
  show ?case
  proof (cases "ow = lower w")
    case True
    with item Cons show ?thesis by simp
  next
    case False
    show ?thesis
    proof (cases "m \<le> int (length rs')")
      case True
      with False item inner len Cons.prems show ?thesis by simp
    next
      case stop: False
      then have "int (length rs') < m" by simp
      from Cons.IH [OF this] False item inner stop show ?thesis by simp
    qed
  qed
qed

lemma search_loop_cap:
  "int (length ms) < m \<Longrightarrow> int (length (search_loop acc m ws ms)) \<le> m"
  by (induction ws arbitrary: ms) auto

lemma cap_respected_from_one:
  assumes "1 \<le> m"
  shows "int (length (fst (find_rhymes d w m))) \<le> m \<and>
    (\<forall>r. fst (search_by_pattern d pat m) = Some r \<longrightarrow> int (length r) \<le> m)"
proof
  have z: "int (length ([] :: string list)) < m" using assms by simp
  show "int (length (fst (find_rhymes d w m))) \<le> m"
    using assms rhyme_outer_cap [OF z]
    by (auto simp: find_rhymes_def find_rhymes_by_phonemes_def dd_get_def dd_items_def
        split: option.splits list.splits)
  show "\<forall>r. fst (search_by_pattern d pat m) = Some r \<longrightarrow> int (length r) \<le> m"
    using search_loop_cap [OF z]
    by (auto simp: search_by_pattern_def dd_keys_def split: option.splits)
qed

section \<open>Where the normalisation does hold\<close>

text \<open>
  Lowercasing and trimming is idempotent, and the five queries that look the word up by
  \<^verbatim>\<open>word.lower().strip()\<close> and use the word nowhere else give the same result for a word
  and for its lowercased, trimmed form.
\<close>

lemma uppercase_not_space: "c \<in> set uppercase \<Longrightarrow> \<not> is_space c"
  unfolding uppercase_def by (auto simp: is_space_def)

lemma lower_char_fixed: "c \<notin> set uppercase \<Longrightarrow> lower_char c = c"
proof -
  assume "c \<notin> set uppercase"
  then have "c \<notin> fst ` set (zip uppercase lowercase)"
    by (auto dest: set_zip_leftD)
  then have "map_of (zip uppercase lowercase) c = None" by (simp add: map_of_eq_None_iff)
  then show ?thesis by (simp add: lower_char_def)
qed

lemma lower_char_in_lowercase: "c \<in> set uppercase \<Longrightarrow> lower_char c \<in> set lowercase"
proof -
  assume "c \<in> set uppercase"
  then have "c \<in> fst ` set (zip uppercase lowercase)"
    by (simp add: uppercase_def lowercase_def)
  then obtain l where l: "map_of (zip uppercase lowercase) c = Some l"
    using map_of_eq_None_iff [of "zip uppercase lowercase" c] by auto
  then have "(c, l) \<in> set (zip uppercase lowercase)" by (rule map_of_SomeD)
  then have "l \<in> set lowercase" by (rule set_zip_rightD)
  with l show ?thesis by (simp add: lower_char_def)
qed

lemma lowercase_not_uppercase: "c \<in> set lowercase \<Longrightarrow> c \<notin> set uppercase"
  unfolding lowercase_def uppercase_def by auto

lemma lower_char_idem: "lower_char (lower_char c) = lower_char c"
proof (cases "c \<in> set uppercase")
  case True
  then have "lower_char c \<notin> set uppercase"
    using lower_char_in_lowercase lowercase_not_uppercase by blast
  then show ?thesis by (rule lower_char_fixed)
next
  case False
  then show ?thesis by (simp add: lower_char_fixed)
qed

lemma is_space_lower_char: "is_space (lower_char c) = is_space c"
proof (cases "c \<in> set uppercase")
  case True
  then have "\<not> is_space c" by (rule uppercase_not_space)
  with lower_char_space [of c] show ?thesis by blast
next
  case False
  then show ?thesis by (simp add: lower_char_fixed)
qed

lemma lower_idem: "lower (lower s) = lower s"
  by (simp add: lower_def lower_char_idem)

lemma lower_dropWhile: "lower (dropWhile is_space s) = dropWhile is_space (lower s)"
  by (induction s) (simp_all add: lower_def is_space_lower_char)

lemma lower_strip: "lower (strip s) = strip (lower s)"
proof -
  have r: "lower (rev s) = rev (lower s)" for s by (simp add: lower_def rev_map)
  show ?thesis unfolding strip_def by (simp only: r lower_dropWhile)
qed

lemma dropWhile_fixed: "xs = [] \<or> \<not> P (hd xs) \<Longrightarrow> dropWhile P xs = xs"
  by (cases xs) auto

lemma strip_idem: "strip (strip s) = strip s"
proof (cases "strip s = []")
  case True
  have "strip [] = []" by (simp add: strip_def)
  with True show ?thesis by simp
next
  case False
  from strip_trimmed [OF False]
  have h: "\<not> is_space (hd (strip s))" and l: "\<not> is_space (last (strip s))" by simp_all
  have a: "dropWhile is_space (strip s) = strip s" using h by (simp add: dropWhile_fixed)
  have "hd (rev (strip s)) = last (strip s)" using False by (simp add: hd_rev)
  with l have b: "dropWhile is_space (rev (strip s)) = rev (strip s)"
    by (simp add: dropWhile_fixed)
  show ?thesis
    unfolding strip_def [of "strip s"] by (simp only: a b rev_rev_ident)
qed

lemma normalize_idem: "strip (lower (strip (lower w))) = strip (lower w)"
  by (simp add: lower_strip lower_idem strip_idem)

lemma normalized_queries:
  "lookup d (strip (lower w)) = lookup d w"
  "count_syllables d (strip (lower w)) = count_syllables d w"
  "get_stress_pattern d (strip (lower w)) = get_stress_pattern d w"
  "get_rhyming_part d (strip (lower w)) = get_rhyming_part d w"
  "get_phonemes_readable d (strip (lower w)) = get_phonemes_readable d w"
  by (simp_all add: lookup_def count_syllables_def get_stress_pattern_def get_rhyming_part_def
      get_phonemes_readable_def normalize_idem)

text \<open>
  The rhyme matcher never returns the lowercased form of the word it was given: the
  exclusion holds for every word without surrounding whitespace.
\<close>

lemma rhyme_inner_set:
  "set (fst (rhyme_inner rp ow prons (rs, seen))) \<subseteq> insert ow (set rs)"
  by (induction prons) auto

lemma rhyme_outer_excludes:
  "lower w \<notin> set rs \<Longrightarrow> lower w \<notin> set (rhyme_outer w rp m items (rs, seen))"
proof (induction items arbitrary: rs seen)
  case Nil
  then show ?case by simp
next
  case (Cons item items)
  obtain ow ops where item: "item = (ow, ops)" by (cases item)
  obtain rs' seen' where inner: "rhyme_inner rp ow ops (rs, seen) = (rs', seen')"
    by (cases "rhyme_inner rp ow ops (rs, seen)")
  show ?case
  proof (cases "ow = lower w")
    case True
    with item Cons show ?thesis by simp
  next
    case False
    have "set rs' \<subseteq> insert ow (set rs)"
      using rhyme_inner_set [of rp ow ops rs seen] by (simp add: inner)
    with False Cons.prems have ex: "lower w \<notin> set rs'" by auto
    from Cons.IH [OF ex] have "lower w \<notin> set (rhyme_outer w rp m items (rs', seen'))" .
    with False item inner ex show ?thesis by simp
  qed
qed

lemma find_rhymes_excludes_lowercased: "lower w \<notin> set (fst (find_rhymes d w m))"
  using rhyme_outer_excludes [of w "[]"]
  by (auto simp: find_rhymes_def find_rhymes_by_phonemes_def dd_get_def dd_items_def
      split: option.splits list.splits)

end
